theory Spec2Isabelle
  imports Complex_Main "HOL-Library.AList" "HOL-Library.Log_Nat" "HOL-Library.Char_ord"
    "HOL-Library.List_Lexorder"
begin

section \<open>Data model\<close>

text \<open>
  A task as \<open>addTask\<close> in \<open>context/TaskContext.jsx\<close> builds it. The identifier is the
  clock reading \<open>Date.now()\<close> (milliseconds since the epoch), the deadline is the string the
  form delivered, \<open>createdAt\<close> and \<open>completedAt\<close> are clock readings (the source stores
  their ISO rendering; the model keeps the reading itself) and \<open>completedAt\<close> is absent
  until the task is completed.
\<close>

record task =
  task_id :: int
  title :: string
  deadline :: string
  completed :: bool
  createdAt :: int
  notified :: bool
  completedAt :: "int option"

text \<open>
  A day bucket of \<open>context/HistoryContext.jsx\<close>: \<open>{ completed, missed }\<close>. The fields carry
  the suffix \<open>Count\<close> to keep them apart from the task's \<open>completed\<close> flag.
\<close>

record bucket =
  completedCount :: nat
  missedCount :: nat

text \<open>
  The history object maps day keys to buckets. A JavaScript object keeps its string keys in
  insertion order and \<open>{...prev, [k]: v}\<close> replaces the value of an existing key in place or
  appends a new key; \<open>AList.update\<close> does the same on an association list.
\<close>

type_synonym history = "(string \<times> bucket) list"

text \<open>The calls of \<open>showNotification\<close> made through the two helpers of \<open>utils/notification.js\<close>.\<close>

datatype notification = Overdue task | Completed task

text \<open>
  The state of the application: the two pieces of state of \<open>TaskProvider\<close>, the state of
  \<open>HistoryProvider\<close>, the set held by \<open>notifiedTasksRef\<close> in \<open>useAutoCheck\<close>, and the two
  observable effects: the notifications requested and the invocations of the callback
  \<open>onTaskOverdue\<close> that \<open>AppContent\<close> passes to the hook.
\<close>

record app =
  tasks :: "task list"
  streak :: nat
  history :: history
  notifiedTasks :: "int set"
  shown :: "notification list"
  overdueCalls :: "task list"

definition initial :: app where
  "initial = \<lparr>tasks = [], streak = 0, history = [], notifiedTasks = {}, shown = [],
     overdueCalls = []\<rparr>"

section \<open>Date utilities\<close>

text \<open>
  \<open>new Date(deadline)\<close> is a built-in of the language: it yields a time value in
  milliseconds, or an invalid date whose comparisons are all false. The parser is a parameter
  \<open>parse\<close> of the model (\<open>None\<close> is the invalid date) and the clock reading \<open>new Date()\<close> is
  the parameter \<open>now\<close>.
\<close>

definition isOverdue :: "(string \<Rightarrow> int option) \<Rightarrow> string \<Rightarrow> int \<Rightarrow> bool" where
  "isOverdue parse dl now =
     (case parse dl of None \<Rightarrow> False | Some deadlineDate \<Rightarrow> deadlineDate < now)"

text \<open>\<open>checkOverdue\<close> of \<open>components/AIEngine.js\<close>: \<open>!task.completed && deadline < now\<close>.\<close>

definition checkOverdue :: "(string \<Rightarrow> int option) \<Rightarrow> task \<Rightarrow> int \<Rightarrow> bool" where
  "checkOverdue parse t now =
     (\<not> completed t \<and> (case parse (deadline t) of None \<Rightarrow> False | Some d \<Rightarrow> d < now))"

text \<open>
  \<open>getTodayKey\<close>: \<open>new Date().toISOString().split('T')[0]\<close>, the calendar date of the clock
  reading in UTC. A time value counts milliseconds since 1970-01-01T00:00Z, so the UTC day
  number is the time value divided by \<open>msPerDay\<close>; \<open>isoDate\<close> renders a day number the way
  \<open>toISOString\<close> does for the years 0000 to 9999, as \<open>YYYY-MM-DD\<close> in the proleptic Gregorian
  calendar.
\<close>

definition msPerDay :: int where
  "msPerDay = 86400000"

definition digit :: "int \<Rightarrow> char" where
  "digit n = ''0123456789'' ! nat n"

definition pad2 :: "int \<Rightarrow> string" where
  "pad2 n = [digit (n div 10), digit (n mod 10)]"

definition pad4 :: "int \<Rightarrow> string" where
  "pad4 n = [digit (n div 1000), digit (n div 100 mod 10), digit (n div 10 mod 10),
             digit (n mod 10)]"

definition isoDate :: "int \<Rightarrow> string" where
  "isoDate day =
     (let z = day + 719468;
          era = z div 146097;
          doe = z mod 146097;
          yoe = (doe - doe div 1460 + doe div 36524 - doe div 146096) div 365;
          doy = doe - (365 * yoe + yoe div 4 - yoe div 100);
          mp = (5 * doy + 2) div 153;
          d = doy - (153 * mp + 2) div 5 + 1;
          m = (if mp < 10 then mp + 3 else mp - 9);
          y = yoe + era * 400 + (if m \<le> 2 then 1 else 0)
      in pad4 y @ ''-'' @ pad2 m @ ''-'' @ pad2 d)"

definition getTodayKey :: "int \<Rightarrow> string" where
  "getTodayKey now = isoDate (now div msPerDay)"

text \<open>
  \<open>getYesterdayKey\<close>: \<open>const yesterday = new Date(); yesterday.setDate(yesterday.getDate() - 1);
  return yesterday.toISOString().split('T')[0]\<close>. \<open>getDate\<close> and \<open>setDate\<close> work in the local
  time of the host: the local time of a time value \<open>t\<close> is \<open>t\<close> plus the zone's offset at \<open>t\<close>,
  \<open>setDate(getDate() - 1)\<close> takes the local day before and keeps the time within the day, and
  the result is turned back into a time value with the offset in force at that local time.
  \<open>toISOString\<close> then renders the UTC date of that time value. The zone of the host is a
  parameter: its offset at a time value, and its offset at a local time.
\<close>

record zone =
  localOffset :: "int \<Rightarrow> int"
  utcOffset :: "int \<Rightarrow> int"

definition LocalTime :: "zone \<Rightarrow> int \<Rightarrow> int" where
  "LocalTime z t = t + localOffset z t"

definition UTC :: "zone \<Rightarrow> int \<Rightarrow> int" where
  "UTC z l = l - utcOffset z l"

definition getYesterdayKey :: "zone \<Rightarrow> int \<Rightarrow> string" where
  "getYesterdayKey z now =
     (let lt = LocalTime z now;
          yesterday = UTC z ((lt div msPerDay - 1) * msPerDay + lt mod msPerDay)
      in isoDate (yesterday div msPerDay))"

section \<open>Task store\<close>

text \<open>The argument of \<open>addTask\<close>: an object with a title and a deadline.\<close>

record task_input =
  in_title :: string
  in_deadline :: string

text \<open>
  \<open>addTask\<close> reads the clock twice, for the identifier and for \<open>createdAt\<close>; the two readings
  are the parameters \<open>idNow\<close> and \<open>createdNow\<close>. It has no failing branch.
\<close>

definition addTask :: "task_input \<Rightarrow> int \<Rightarrow> int \<Rightarrow> app \<Rightarrow> app" where
  "addTask inp idNow createdNow s =
     (let newTask = \<lparr>task_id = idNow, title = in_title inp, deadline = in_deadline inp,
                      completed = False, createdAt = createdNow, notified = False,
                      completedAt = None\<rparr>
      in s\<lparr>tasks := tasks s @ [newTask]\<rparr>)"

text \<open>
  \<open>handleSubmit\<close> of the task form: \<open>if (!title || !deadline) return;\<close> and then
  \<open>addTask({ title, deadline })\<close>. A string is falsy exactly when it is empty.
\<close>

definition handleSubmit :: "string \<Rightarrow> string \<Rightarrow> int \<Rightarrow> int \<Rightarrow> app \<Rightarrow> app" where
  "handleSubmit ttl dl idNow createdNow s =
     (if ttl = [] \<or> dl = [] then s
      else addTask \<lparr>in_title = ttl, in_deadline = dl\<rparr> idNow createdNow s)"

definition notifyTaskCompleted :: "task \<Rightarrow> app \<Rightarrow> app" where
  "notifyTaskCompleted t s = s\<lparr>shown := shown s @ [Completed t]\<rparr>"

definition notifyOverdueTask :: "task \<Rightarrow> app \<Rightarrow> app" where
  "notifyOverdueTask t s = s\<lparr>shown := shown s @ [Overdue t]\<rparr>"

text \<open>
  \<open>completeTask\<close>: \<open>prev.find\<close> takes the first task with the identifier; the notification
  and the streak increment are guarded by \<open>task && !task.completed\<close>, the \<open>map\<close> that follows
  is not guarded and stamps \<open>completedAt\<close> with the clock on every task with the identifier.
\<close>

definition completeTask :: "int \<Rightarrow> int \<Rightarrow> app \<Rightarrow> app" where
  "completeTask i now s =
     (let prev = tasks s;
          s1 = (case find (\<lambda>t. task_id t = i) prev of
                  None \<Rightarrow> s
                | Some t \<Rightarrow>
                    if \<not> completed t
                    then (notifyTaskCompleted t s)\<lparr>streak := streak s + 1\<rparr>
                    else s)
      in s1\<lparr>tasks := map (\<lambda>t. if task_id t = i
                                then t\<lparr>completed := True, completedAt := Some now\<rparr>
                                else t) prev\<rparr>)"

definition deleteTask :: "int \<Rightarrow> app \<Rightarrow> app" where
  "deleteTask i s = s\<lparr>tasks := filter (\<lambda>t. task_id t \<noteq> i) (tasks s)\<rparr>"

definition markNotified :: "int \<Rightarrow> app \<Rightarrow> app" where
  "markNotified i s =
     s\<lparr>tasks := map (\<lambda>t. if task_id t = i then t\<lparr>notified := True\<rparr> else t) (tasks s)\<rparr>"

definition clearAllTasks :: "app \<Rightarrow> app" where
  "clearAllTasks s = s\<lparr>tasks := [], streak := 0\<rparr>"

text \<open>The filters behind \<open>getOverdueTasks\<close>, \<open>overdueCount\<close> and \<open>pendingCount\<close>.\<close>

definition getOverdueTasks :: "(string \<Rightarrow> int option) \<Rightarrow> int \<Rightarrow> task list \<Rightarrow> task list" where
  "getOverdueTasks parse now ts =
     filter (\<lambda>t. \<not> completed t \<and> isOverdue parse (deadline t) now) ts"

definition overdueCount :: "(string \<Rightarrow> int option) \<Rightarrow> int \<Rightarrow> task list \<Rightarrow> nat" where
  "overdueCount parse now ts =
     length (filter (\<lambda>t. \<not> completed t \<and> isOverdue parse (deadline t) now) ts)"

definition pendingCount :: "(string \<Rightarrow> int option) \<Rightarrow> int \<Rightarrow> task list \<Rightarrow> nat" where
  "pendingCount parse now ts =
     length (filter (\<lambda>t. \<not> completed t \<and> \<not> isOverdue parse (deadline t) now) ts)"

section \<open>History store\<close>

text \<open>
  \<open>recordCompletion\<close> and \<open>recordMissed\<close> take the key that \<open>getTodayKey()\<close> returned as
  the parameter \<open>today\<close>. \<open>prev[today]?.completed || 0\<close> is the count of the bucket, or 0
  when there is no bucket.
\<close>

definition completedOf :: "history \<Rightarrow> string \<Rightarrow> nat" where
  "completedOf h k = (case map_of h k of None \<Rightarrow> 0 | Some b \<Rightarrow> completedCount b)"

definition missedOf :: "history \<Rightarrow> string \<Rightarrow> nat" where
  "missedOf h k = (case map_of h k of None \<Rightarrow> 0 | Some b \<Rightarrow> missedCount b)"

definition recordCompletion :: "string \<Rightarrow> history \<Rightarrow> history" where
  "recordCompletion today prev =
     AList.update today
       \<lparr>completedCount = completedOf prev today + 1, missedCount = missedOf prev today\<rparr> prev"

definition recordMissed :: "string \<Rightarrow> history \<Rightarrow> history" where
  "recordMissed today prev =
     AList.update today
       \<lparr>completedCount = completedOf prev today, missedCount = missedOf prev today + 1\<rparr> prev"

definition getTodayStats :: "int \<Rightarrow> history \<Rightarrow> bucket" where
  "getTodayStats now h =
     (let today = getTodayKey now
      in \<lparr>completedCount = completedOf h today, missedCount = missedOf h today\<rparr>)"

definition getYesterdayStats :: "zone \<Rightarrow> int \<Rightarrow> history \<Rightarrow> bucket" where
  "getYesterdayStats z now h =
     (let yesterday = getYesterdayKey z now
      in \<lparr>completedCount = completedOf h yesterday, missedCount = missedOf h yesterday\<rparr>)"

text \<open>
  \<open>getRecoveryDebt\<close>: \<open>const yesterday = getYesterdayKey(); return history[yesterday]?.missed || 0\<close>.
\<close>

definition getRecoveryDebt :: "zone \<Rightarrow> int \<Rightarrow> history \<Rightarrow> nat" where
  "getRecoveryDebt z now h = (let yesterday = getYesterdayKey z now in missedOf h yesterday)"

definition clearHistory :: "history \<Rightarrow> history" where
  "clearHistory h = []"

text \<open>
  The effect that saves the history after every change of it. The outcome of
  \<open>localStorage.setItem\<close> comes from the browser. When the write throws a
  \<open>QuotaExceededError\<close> and the history has more than 30 keys, the provider sorts the keys,
  takes the last 30 (\<open>keys.slice(-30)\<close>), builds a new object with the buckets of those keys
  and makes it the history (every key of the list has a bucket, so no lookup fails). In
  every other case the history stays as it is.
\<close>

datatype write_result = Saved | QuotaExceeded | OtherError

definition persist :: "write_result \<Rightarrow> history \<Rightarrow> history" where
  "persist r h =
     (if r = QuotaExceeded
      then (let keys = sort (map fst h)
            in if length keys > 30
               then List.map_filter (\<lambda>key. map_option (Pair key) (map_of h key))
                      (drop (length keys - 30) keys)
               else h)
      else h)"

section \<open>Numbers\<close>

text \<open>
  A JavaScript number is an IEEE 754 binary64 value, and \<open>/\<close> and \<open>*\<close> return the exact
  result rounded to the nearest such value, a tie going to the even significand. For a
  positive rational \<open>q\<close> with \<open>2^e \<le> q < 2^(e+1)\<close> the significand \<open>q / 2^(e-52)\<close> lies between
  \<open>2^52\<close> and \<open>2^53\<close> and is rounded to an integer. The model does not bound the exponent: the
  operands here are counts below \<open>2^53\<close> and quotients of such counts, far inside the range
  of normal numbers, so neither overflow nor subnormal numbers occur; nor does a negative
  operand.
\<close>

definition rne :: "rat \<Rightarrow> int" where
  "rne q = (let f = \<lfloor>q\<rfloor>; r = q - of_int f
            in if r < 1/2 then f else if 1/2 < r then f + 1 else if even f then f else f + 1)"

definition expo :: "rat \<Rightarrow> int" where
  "expo q = (if 1 \<le> q then bitlen \<lfloor>q\<rfloor> - 1 else - bitlen (\<lceil>1 / q\<rceil> - 1))"

definition fl :: "rat \<Rightarrow> rat" where
  "fl q = (if q \<le> 0 then 0
           else of_int (rne (q / 2 powi (expo q - 52))) * 2 powi (expo q - 52))"

definition js_div :: "rat \<Rightarrow> rat \<Rightarrow> rat" where
  "js_div x y = fl (x / y)"

definition js_mul :: "rat \<Rightarrow> rat \<Rightarrow> rat" where
  "js_mul x y = fl (x * y)"

text \<open>\<open>Math.round\<close>: the nearest integer, a tie going up.\<close>

definition Math_round :: "rat \<Rightarrow> int" where
  "Math_round x = \<lfloor>x + 1/2\<rfloor>"

section \<open>Scores\<close>

text \<open>
  \<open>disciplineScore\<close> of the task store:
  \<open>tasks.length === 0 ? 100 : Math.round((tasks.filter(t => t.completed).length / tasks.length) * 100)\<close>.
\<close>

definition disciplineScore :: "task list \<Rightarrow> int" where
  "disciplineScore ts =
     (if length ts = 0 then 100
      else Math_round
             (js_mul (js_div (of_nat (length (filter completed ts))) (of_nat (length ts))) 100))"

text \<open>
  \<open>getOverallCompletionRate\<close> of the history store: 100 for no entries, else the totals are
  accumulated over \<open>Object.values(history)\<close> and the rate is
  \<open>total > 0 ? Math.round((totals.completed / total) * 100) : 100\<close>. The sums of counts are
  exact as long as they stay below \<open>2^53\<close>.
\<close>

definition getOverallCompletionRate :: "history \<Rightarrow> int" where
  "getOverallCompletionRate h =
     (let entries = map snd h in
      if length entries = 0 then 100
      else
        let totals = foldl (\<lambda>acc day.
                        \<lparr>completedCount = completedCount acc + completedCount day,
                         missedCount = missedCount acc + missedCount day\<rparr>)
                      \<lparr>completedCount = 0, missedCount = 0\<rparr> entries;
            total = completedCount totals + missedCount totals
        in if total > 0
           then Math_round (js_mul (js_div (of_nat (completedCount totals)) (of_nat total)) 100)
           else 100)"

section \<open>Overdue monitor\<close>

text \<open>
  The callback that \<open>AppContent\<close> passes to \<open>useAutoCheck\<close>: \<open>recordMissed()\<close>, then a log
  line for the task. The invocation is recorded in \<open>overdueCalls\<close>.
\<close>

definition onTaskOverdue :: "string \<Rightarrow> task \<Rightarrow> app \<Rightarrow> app" where
  "onTaskOverdue today overdueTask s =
     s\<lparr>history := recordMissed today (history s),
       overdueCalls := overdueCalls s @ [overdueTask]\<rparr>"

text \<open>
  The body of the \<open>forEach\<close> of \<open>checkOverdueTasks\<close> in \<open>hooks/useAutoCheck.js\<close>: skip a
  completed task, skip an identifier already in the set, and for an overdue task add the
  identifier, request the notification and call the callback. It never writes to the task.
\<close>

definition checkTask :: "(string \<Rightarrow> int option) \<Rightarrow> int \<Rightarrow> string \<Rightarrow> app \<Rightarrow> task \<Rightarrow> app" where
  "checkTask parse now today s t =
     (if completed t then s
      else if task_id t \<in> notifiedTasks s then s
      else if isOverdue parse (deadline t) now
      then onTaskOverdue today t
             (notifyOverdueTask t (s\<lparr>notifiedTasks := insert (task_id t) (notifiedTasks s)\<rparr>))
      else s)"

text \<open>One tick: \<open>if (!tasks || tasks.length === 0) return;\<close>, then the loop over the tasks.\<close>

definition checkOverdueTasks :: "(string \<Rightarrow> int option) \<Rightarrow> int \<Rightarrow> string \<Rightarrow> app \<Rightarrow> app" where
  "checkOverdueTasks parse now today s =
     (if tasks s = [] then s else foldl (checkTask parse now today) s (tasks s))"

section \<open>Operations of the application\<close>

text \<open>
  The actions that the two providers export, the run of the history provider's saving
  effect with the outcome of its write, and the tick of the monitor, as events applied
  to the state one after the other: state updates with an updater function run in the order
  in which they were queued, each on the result of the one before.
\<close>

datatype history_op =
    RecordCompletion string
  | RecordMissed string
  | ClearHistory
  | Persist write_result

fun applyHistory :: "history_op \<Rightarrow> history \<Rightarrow> history" where
  "applyHistory (RecordCompletion today) h = recordCompletion today h"
| "applyHistory (RecordMissed today) h = recordMissed today h"
| "applyHistory ClearHistory h = clearHistory h"
| "applyHistory (Persist r) h = persist r h"

datatype task_op =
    AddTask task_input int int
  | CompleteTask int int
  | DeleteTask int
  | MarkNotified int
  | ClearAllTasks

fun applyTask :: "task_op \<Rightarrow> app \<Rightarrow> app" where
  "applyTask (AddTask inp idNow createdNow) s = addTask inp idNow createdNow s"
| "applyTask (CompleteTask i now) s = completeTask i now s"
| "applyTask (DeleteTask i) s = deleteTask i s"
| "applyTask (MarkNotified i) s = markNotified i s"
| "applyTask ClearAllTasks s = clearAllTasks s"

datatype event = Tick int string | TaskOp task_op | HistoryOp history_op

fun step :: "(string \<Rightarrow> int option) \<Rightarrow> app \<Rightarrow> event \<Rightarrow> app" where
  "step parse s (Tick now today) = checkOverdueTasks parse now today s"
| "step parse s (TaskOp op) = applyTask op s"
| "step parse s (HistoryOp op) = s\<lparr>history := applyHistory op (history s)\<rparr>"

definition run :: "(string \<Rightarrow> int option) \<Rightarrow> event list \<Rightarrow> app \<Rightarrow> app" where
  "run parse es s = foldl (step parse) s es"

text \<open>The number of invocations of the overdue callback for the tasks with identifier \<open>j\<close>.\<close>

definition callsFor :: "int \<Rightarrow> app \<Rightarrow> nat" where
  "callsFor j s = length (filter (\<lambda>u. task_id u = j) (overdueCalls s))"

text \<open>The number of overdue notifications requested for the tasks with identifier \<open>j\<close>.\<close>

fun isOverdueFor :: "int \<Rightarrow> notification \<Rightarrow> bool" where
  "isOverdueFor j (Overdue u) = (task_id u = j)"
| "isOverdueFor j (Completed u) = False"

definition notificationsFor :: "int \<Rightarrow> app \<Rightarrow> nat" where
  "notificationsFor j s = length (filter (isOverdueFor j) (shown s))"

section \<open>Sample data\<close>

text \<open>
  A parser that knows two deadlines, the first instants of 2020 and of 2030 in UTC, and the
  task of the scenario "Pay rent", created at the clock reading 1771581600000
  (2026-02-20T10:00Z) with the deadline in 2020. The ticks of the examples follow one minute
  apart, from 1771581660000.
\<close>

definition parseSample :: "string \<Rightarrow> int option" where
  "parseSample dl =
     (if dl = ''2020-01-01T00:00'' then Some 1577836800000
      else if dl = ''2030-01-01T00:00'' then Some 1893456000000
      else None)"

definition payRent :: task where
  "payRent = \<lparr>task_id = 1771581600000, title = ''Pay rent'', deadline = ''2020-01-01T00:00'',
      completed = False, createdAt = 1771581600000, notified = False, completedAt = None\<rparr>"

definition payRentInput :: task_input where
  "payRentInput = \<lparr>in_title = ''Pay rent'', in_deadline = ''2020-01-01T00:00''\<rparr>"

text \<open>
  New York in 2026: five hours behind UTC, four during daylight saving time, which runs from
  2026-03-08T07:00Z (1772953200000) to 2026-11-01T06:00Z (1793512800000). In local time
  that is from 03:00 on 8 March (1772938800000 as a local time value) to 02:00 on
  1 November (1793498400000).
\<close>

definition newYork2026 :: zone where
  "newYork2026 =
     \<lparr>localOffset = (\<lambda>t. if 1772953200000 \<le> t \<and> t < 1793512800000
                          then - 14400000 else - 18000000),
      utcOffset = (\<lambda>l. if 1772938800000 \<le> l \<and> l < 1793498400000
                        then - 14400000 else - 18000000)\<rparr>"


section \<open>The overdue predicate\<close>

text \<open>
  C6. For every task and every clock reading, the overdue predicate holds iff the task is not
  completed and its deadline lies strictly before the clock reading. It is false for every
  completed task, it depends on the task only through the completed flag and the deadline,
  and the filter of the task store (\<open>!t.completed && isOverdue(t.deadline)\<close>) is the same
  predicate.
\<close>

theorem overdue_iff:
  "(checkOverdue parse t now
      \<longleftrightarrow> \<not> completed t \<and> (\<exists>d. parse (deadline t) = Some d \<and> d < now))
   \<and> (completed t \<longrightarrow> \<not> checkOverdue parse t now)
   \<and> (completed t = completed u \<and> deadline t = deadline u
        \<longrightarrow> checkOverdue parse t now = checkOverdue parse u now)
   \<and> (checkOverdue parse t now \<longleftrightarrow> \<not> completed t \<and> isOverdue parse (deadline t) now)
   \<and> getOverdueTasks parse now ts = filter (\<lambda>t. checkOverdue parse t now) ts"
  by (auto simp: checkOverdue_def isOverdue_def getOverdueTasks_def split: option.splits
           intro: filter_cong)

theorem overdue_iff_witness:
  "completed (payRent\<lparr>completed := True\<rparr>)
   \<and> \<not> checkOverdue parseSample (payRent\<lparr>completed := True\<rparr>) 1771581660000
   \<and> checkOverdue parseSample payRent 1771581660000
   \<and> checkOverdue parseSample (payRent\<lparr>title := ''Rent''\<rparr>) 1771581660000"
  using overdue_iff [of parseSample "payRent\<lparr>completed := True\<rparr>" 1771581660000 payRent "[]"]
        overdue_iff [of parseSample payRent 1771581660000 "payRent\<lparr>title := ''Rent''\<rparr>" "[]"]
  by (simp add: payRent_def parseSample_def isOverdue_def checkOverdue_def)

section \<open>Recovery debt\<close>

lemma getYesterdayKey_fixed_offset:
  assumes "\<And>t. localOffset z t = c" and "\<And>l. utcOffset z l = c"
  shows "getYesterdayKey z now = isoDate (now div msPerDay - 1)"
proof -
  have "((now + c) div msPerDay - 1) * msPerDay + (now + c) mod msPerDay = now + c - msPerDay"
    by (simp add: algebra_simps)
  then have "UTC z ((LocalTime z now div msPerDay - 1) * msPerDay + LocalTime z now mod msPerDay)
      = now - msPerDay"
    by (simp add: LocalTime_def UTC_def assms)
  moreover have "(now - msPerDay) div msPerDay = now div msPerDay - 1"
    by (simp add: msPerDay_def)
  ultimately show ?thesis
    by (simp add: getYesterdayKey_def Let_def)
qed

lemma getRecoveryDebt_fixed_offset:
  assumes "\<And>t. localOffset z t = c" and "\<And>l. utcOffset z l = c"
  shows "getRecoveryDebt z now h = missedOf h (isoDate (now div msPerDay - 1))"
    and "map_of h (isoDate (now div msPerDay - 1)) = None \<Longrightarrow> getRecoveryDebt z now h = 0"
  using getYesterdayKey_fixed_offset [of z c now, OF assms]
  by (simp_all add: getRecoveryDebt_def missedOf_def)

text \<open>
  C7, evaluated on the code. In a zone whose offset never changes \<open>getYesterdayKey()\<close> is the
  key of the day before today's key, and \<open>getRecoveryDebt()\<close> is that bucket's missed count,
  0 without a bucket (the two lemmas above). Across a change of daylight saving time it is
  not. In New York at 2026-03-08T23:30Z today's key is \<open>2026-03-08\<close>; the local day before at
  the same local time is 2026-03-08T00:30Z, so \<open>getYesterdayKey()\<close> is today's key and the
  debt read is today's missed count 2, not yesterday's 5. At 2026-11-02T00:30Z today's key is
  \<open>2026-11-02\<close> and \<open>getYesterdayKey()\<close> is \<open>2026-10-31\<close>, so the debt read is 0 while
  yesterday's bucket holds 5. On 2026-02-20 the key is the one of the day before.
\<close>

theorem getRecoveryDebt_across_dst:
  "getTodayKey 1773012600000 = ''2026-03-08''
   \<and> getYesterdayKey newYork2026 1773012600000 = ''2026-03-08''
   \<and> getRecoveryDebt newYork2026 1773012600000
        [(''2026-03-07'', \<lparr>completedCount = 0, missedCount = 5\<rparr>),
         (''2026-03-08'', \<lparr>completedCount = 0, missedCount = 2\<rparr>)] = 2
   \<and> getTodayKey 1793579400000 = ''2026-11-02''
   \<and> getYesterdayKey newYork2026 1793579400000 = ''2026-10-31''
   \<and> getRecoveryDebt newYork2026 1793579400000
        [(''2026-11-01'', \<lparr>completedCount = 0, missedCount = 5\<rparr>)] = 0
   \<and> getTodayKey 1771581600000 = ''2026-02-20''
   \<and> getYesterdayKey newYork2026 1771581600000 = ''2026-02-19''"
  by code_simp

section \<open>Day buckets only grow\<close>














section \<open>Streak\<close>

lemma find_distinct_id:
  "distinct (map task_id ts) \<Longrightarrow> t \<in> set ts \<Longrightarrow> find (\<lambda>u. task_id u = task_id t) ts = Some t"
  by (induction ts) (auto simp: image_iff)

lemma find_all_completed:
  "\<forall>t\<in>set ts. task_id t = i \<longrightarrow> completed t \<Longrightarrow>
     case find (\<lambda>t. task_id t = i) ts of None \<Rightarrow> True | Some t \<Rightarrow> completed t"
  by (induction ts) auto

text \<open>
  C10. With identifiers that name one task each, \<open>completeTask\<close> on the identifier of a task
  that is not yet completed raises the streak by exactly one. \<open>completeTask\<close> on an identifier
  that no task has, or whose tasks are all completed, leaves the streak as it was, and so do
  \<open>addTask\<close> and \<open>deleteTask\<close>. \<open>clearAllTasks\<close> sets it to 0, and an action of the task store
  that lowers the streak is \<open>clearAllTasks\<close>.
\<close>

theorem streak_steps:
  "(distinct (map task_id (tasks s)) \<and> t \<in> set (tasks s) \<and> \<not> completed t
      \<longrightarrow> streak (completeTask (task_id t) now s) = streak s + 1)
   \<and> ((\<forall>u\<in>set (tasks s). task_id u = i \<longrightarrow> completed u)
      \<longrightarrow> streak (completeTask i now s) = streak s)
   \<and> streak (addTask inp idNow createdNow s) = streak s
   \<and> streak (deleteTask i s) = streak s
   \<and> streak (clearAllTasks s) = 0
   \<and> (streak (applyTask op s) < streak s \<longrightarrow> op = ClearAllTasks)"
proof -
  have up: "streak (completeTask (task_id t) now s) = streak s + 1"
    if "distinct (map task_id (tasks s))" "t \<in> set (tasks s)" "\<not> completed t"
    using find_distinct_id [OF that(1,2)] that(3)
    by (simp add: completeTask_def notifyTaskCompleted_def Let_def)
  have same: "streak (completeTask i now s) = streak s"
    if "\<forall>u\<in>set (tasks s). task_id u = i \<longrightarrow> completed u"
    using find_all_completed [OF that]
    by (auto simp: completeTask_def notifyTaskCompleted_def Let_def split: option.splits)
  have mono: "streak s \<le> streak (completeTask j n s)" for j n
    by (simp add: completeTask_def notifyTaskCompleted_def Let_def split: option.splits)
  have only: "op = ClearAllTasks" if "streak (applyTask op s) < streak s"
  proof (cases op)
    case (CompleteTask j n)
    with that mono [of j n] show ?thesis by simp
  qed (use that in \<open>simp_all add: addTask_def deleteTask_def markNotified_def\<close>)
  have rest: "streak (addTask inp idNow createdNow s) = streak s"
    "streak (deleteTask i s) = streak s" "streak (clearAllTasks s) = 0"
    by (simp_all add: addTask_def deleteTask_def clearAllTasks_def)
  from up same only rest show ?thesis by blast
qed

theorem streak_steps_witness:
  "distinct (map task_id (tasks (addTask payRentInput 1771581600000 1771581600000 initial)))
   \<and> payRent \<in> set (tasks (addTask payRentInput 1771581600000 1771581600000 initial))
   \<and> \<not> completed payRent
   \<and> streak (completeTask (task_id payRent) 1771581900000 (addTask payRentInput 1771581600000 1771581600000 initial)) = 1
   \<and> streak (completeTask 77 1771581900000 (addTask payRentInput 1771581600000 1771581600000 initial)) = 0
   \<and> streak (completeTask 1771581600000 1771582200000
        (completeTask 1771581600000 1771581900000 (addTask payRentInput 1771581600000 1771581600000 initial))) = 1
   \<and> streak (applyTask ClearAllTasks (completeTask 1771581600000 1771581900000
        (addTask payRentInput 1771581600000 1771581600000 initial))) < 1"
  using streak_steps [of "addTask payRentInput 1771581600000 1771581600000 initial" payRent 1771581900000 77
          payRentInput 0 0 ClearAllTasks]
        streak_steps [of "completeTask 1771581600000 1771581900000 (addTask payRentInput 1771581600000 1771581600000 initial)"
          payRent 1771582200000 1771581600000 payRentInput 0 0 ClearAllTasks]
  by (simp add: addTask_def payRent_def payRentInput_def initial_def completeTask_def
        notifyTaskCompleted_def clearAllTasks_def Let_def)

section \<open>Adding a task\<close>

text \<open>
  C4, as the code has it. \<open>addTask\<close> has no failing branch: for every title and deadline it
  appends a task with the identifier read from the clock, the title and deadline as given,
  \<open>completed = false\<close> and \<open>notified = false\<close>. The check for an empty title or an empty
  deadline is made by the form's \<open>handleSubmit\<close>, which then returns without calling
  \<open>addTask\<close> and without reporting an error; with both non-empty it calls \<open>addTask\<close>.
\<close>

theorem addTask_appends:
  "tasks (addTask inp idNow createdNow s)
     = tasks s @ [\<lparr>task_id = idNow, title = in_title inp, deadline = in_deadline inp,
                   completed = False, createdAt = createdNow, notified = False,
                   completedAt = None\<rparr>]
   \<and> (ttl = [] \<or> dl = [] \<longrightarrow> handleSubmit ttl dl idNow createdNow s = s)
   \<and> (ttl \<noteq> [] \<and> dl \<noteq> [] \<longrightarrow>
        handleSubmit ttl dl idNow createdNow s
          = addTask \<lparr>in_title = ttl, in_deadline = dl\<rparr> idNow createdNow s)"
  by (simp add: addTask_def handleSubmit_def)

theorem addTask_appends_witness:
  "tasks (addTask payRentInput 1771581600000 1771581600000 initial) = [payRent]
   \<and> handleSubmit [] ''2020-01-01T00:00'' 1771581600000 1771581600000 initial = initial
   \<and> tasks (handleSubmit ''Pay rent'' ''2020-01-01T00:00'' 1771581600000 1771581600000 initial) = [payRent]"
  using addTask_appends [of payRentInput 1771581600000 1771581600000 initial "[]" "''2020-01-01T00:00''"]
        addTask_appends [of payRentInput 1771581600000 1771581600000 initial "''Pay rent''" "''2020-01-01T00:00''"]
  by (simp add: payRentInput_def payRent_def initial_def)

text \<open>
  The claim as stated fails: \<open>addTask\<close> with an empty title and a deadline that is no point
  in time creates the task.
\<close>

theorem addTask_empty_title_counterexample:
  "parseSample ''not a date'' = None
   \<and> tasks (addTask \<lparr>in_title = [], in_deadline = ''not a date''\<rparr> 1771581600000 1771581600000 initial)
       = [\<lparr>task_id = 1771581600000, title = [], deadline = ''not a date'', completed = False,
            createdAt = 1771581600000, notified = False, completedAt = None\<rparr>]"
  by (simp add: addTask_def initial_def parseSample_def)

section \<open>Completing a task\<close>

text \<open>
  C2, evaluated on the code. Completing the one open task, with an empty history and today's
  key \<open>2026-02-20\<close>: the task is marked completed, one "task completed" notification is
  requested and the streak is 1, but the history store receives nothing, its completed count
  for today stays 0: \<open>completeTask\<close> never calls \<open>recordCompletion\<close>. Completing the same
  task again requests no second notification and leaves the streak, but it is no no-op on
  the task list: \<open>completedAt\<close> is overwritten with the new clock reading.
\<close>

theorem completeTask_records_nothing:
  "tasks (completeTask 1771581600000 1771581900000 (addTask payRentInput 1771581600000 1771581600000 initial))
     = [payRent\<lparr>completed := True, completedAt := Some 1771581900000\<rparr>]
   \<and> shown (completeTask 1771581600000 1771581900000 (addTask payRentInput 1771581600000 1771581600000 initial))
     = [Completed payRent]
   \<and> streak (completeTask 1771581600000 1771581900000 (addTask payRentInput 1771581600000 1771581600000 initial)) = 1
   \<and> history (completeTask 1771581600000 1771581900000 (addTask payRentInput 1771581600000 1771581600000 initial)) = []
   \<and> completedOf (history (completeTask 1771581600000 1771581900000 (addTask payRentInput 1771581600000 1771581600000 initial)))
        ''2026-02-20'' = 0
   \<and> completedOf (recordCompletion ''2026-02-20''
        (history (addTask payRentInput 1771581600000 1771581600000 initial))) ''2026-02-20'' = 1
   \<and> shown (completeTask 1771581600000 1771582200000
        (completeTask 1771581600000 1771581900000 (addTask payRentInput 1771581600000 1771581600000 initial)))
     = [Completed payRent]
   \<and> tasks (completeTask 1771581600000 1771582200000
        (completeTask 1771581600000 1771581900000 (addTask payRentInput 1771581600000 1771581600000 initial)))
     = [payRent\<lparr>completed := True, completedAt := Some 1771582200000\<rparr>]"
  by (simp add: completeTask_def addTask_def payRentInput_def payRent_def initial_def
        notifyTaskCompleted_def completedOf_def missedOf_def recordCompletion_def Let_def)

section \<open>The monitor fires once\<close>

lemma checkTask_tasks [simp]: "tasks (checkTask parse now today s t) = tasks s"
  by (simp add: checkTask_def onTaskOverdue_def notifyOverdueTask_def)

lemma foldl_checkTask_tasks [simp]: "tasks (foldl (checkTask parse now today) s ts) = tasks s"
  by (induction ts arbitrary: s) simp_all

lemma checkTask_keeps:
  "j \<in> notifiedTasks s \<Longrightarrow>
     j \<in> notifiedTasks (checkTask parse now today s t)
     \<and> callsFor j (checkTask parse now today s t) = callsFor j s"
  by (auto simp: checkTask_def onTaskOverdue_def notifyOverdueTask_def callsFor_def)

lemma foldl_checkTask_keeps:
  "j \<in> notifiedTasks s \<Longrightarrow>
     j \<in> notifiedTasks (foldl (checkTask parse now today) s ts)
     \<and> callsFor j (foldl (checkTask parse now today) s ts) = callsFor j s"
proof (induction ts arbitrary: s)
  case Nil
  then show ?case by simp
next
  case (Cons x xs)
  from checkTask_keeps [OF Cons.prems, of parse now today x]
  have "j \<in> notifiedTasks (checkTask parse now today s x)"
    and "callsFor j (checkTask parse now today s x) = callsFor j s" by simp_all
  with Cons.IH [of "checkTask parse now today s x"] show ?case by simp
qed

lemma checkTask_fires:
  "\<not> completed t \<Longrightarrow> isOverdue parse (deadline t) now \<Longrightarrow> task_id t \<notin> notifiedTasks s \<Longrightarrow>
     task_id t \<in> notifiedTasks (checkTask parse now today s t)
     \<and> callsFor (task_id t) (checkTask parse now today s t) = callsFor (task_id t) s + 1"
  by (simp add: checkTask_def onTaskOverdue_def notifyOverdueTask_def callsFor_def)

lemma checkTask_other:
  "j \<notin> notifiedTasks (checkTask parse now today s x) \<Longrightarrow>
     j \<notin> notifiedTasks s \<and> callsFor j (checkTask parse now today s x) = callsFor j s"
  by (auto simp: checkTask_def onTaskOverdue_def notifyOverdueTask_def callsFor_def
           split: if_splits)

lemma checkTask_enters:
  "j \<notin> notifiedTasks s \<Longrightarrow> j \<in> notifiedTasks (checkTask parse now today s x) \<Longrightarrow>
     callsFor j (checkTask parse now today s x) = callsFor j s + 1"
  by (auto simp: checkTask_def onTaskOverdue_def notifyOverdueTask_def callsFor_def
           split: if_splits)

lemma foldl_checkTask_fires:
  "t \<in> set ts \<Longrightarrow> \<not> completed t \<Longrightarrow> isOverdue parse (deadline t) now \<Longrightarrow>
   task_id t \<notin> notifiedTasks s \<Longrightarrow>
     task_id t \<in> notifiedTasks (foldl (checkTask parse now today) s ts)
     \<and> callsFor (task_id t) (foldl (checkTask parse now today) s ts)
         = callsFor (task_id t) s + 1"
proof (induction ts arbitrary: s)
  case Nil
  then show ?case by simp
next
  case (Cons x xs)
  let ?s' = "checkTask parse now today s x"
  show ?case
  proof (cases "task_id t \<in> notifiedTasks ?s'")
    case True
    with Cons.prems(4) have "callsFor (task_id t) ?s' = callsFor (task_id t) s + 1"
      by (rule checkTask_enters)
    with foldl_checkTask_keeps [OF True, of parse now today xs] show ?thesis by simp
  next
    case False
    then have same: "callsFor (task_id t) ?s' = callsFor (task_id t) s"
      using checkTask_other by blast
    have "t \<noteq> x"
      using False checkTask_fires [OF Cons.prems(2,3,4), of today] by auto
    with Cons.prems(1) have "t \<in> set xs" by simp
    from Cons.IH [OF this Cons.prems(2,3) False] same show ?thesis by simp
  qed
qed

lemma applyTask_monitor:
  "notifiedTasks (applyTask op s) = notifiedTasks s
   \<and> overdueCalls (applyTask op s) = overdueCalls s"
  by (cases op)
     (simp_all add: addTask_def completeTask_def deleteTask_def markNotified_def
        clearAllTasks_def notifyTaskCompleted_def Let_def split: option.splits)

lemma step_keeps:
  assumes "j \<in> notifiedTasks s"
  shows "j \<in> notifiedTasks (step parse s e) \<and> callsFor j (step parse s e) = callsFor j s"
proof (cases e)
  case (Tick now today)
  with assms foldl_checkTask_keeps [OF assms, of parse now today "tasks s"]
  show ?thesis by (simp add: checkOverdueTasks_def)
next
  case (TaskOp op)
  with assms applyTask_monitor [of op s] show ?thesis by (simp add: callsFor_def)
next
  case (HistoryOp op)
  with assms show ?thesis by (simp add: callsFor_def)
qed

lemma run_keeps:
  "j \<in> notifiedTasks s \<Longrightarrow>
     j \<in> notifiedTasks (run parse es s) \<and> callsFor j (run parse es s) = callsFor j s"
proof (induction es arbitrary: s)
  case Nil
  then show ?case by (simp add: run_def)
next
  case (Cons e es)
  from step_keeps [OF Cons.prems, of parse e]
  have "j \<in> notifiedTasks (step parse s e)"
    and "callsFor j (step parse s e) = callsFor j s" by simp_all
  with Cons.IH [of "step parse s e"] show ?case by (simp add: run_def)
qed

lemma checkTask_calls:
  "overdueCalls (checkTask parse now today s x) = overdueCalls s
   \<or> overdueCalls (checkTask parse now today s x) = overdueCalls s @ [x]"
  by (simp add: checkTask_def onTaskOverdue_def notifyOverdueTask_def)

lemma foldl_checkTask_calls:
  "\<exists>fired. overdueCalls (foldl (checkTask parse now today) s ts) = overdueCalls s @ fired
     \<and> set fired \<subseteq> set ts"
proof (induction ts arbitrary: s)
  case Nil
  then show ?case by simp
next
  case (Cons x xs)
  from Cons.IH [of "checkTask parse now today s x"] obtain fired
    where f: "overdueCalls (foldl (checkTask parse now today) (checkTask parse now today s x) xs)
        = overdueCalls (checkTask parse now today s x) @ fired"
      and sub: "set fired \<subseteq> set xs"
    by blast
  from checkTask_calls [of parse now today s x] show ?case
  proof
    assume "overdueCalls (checkTask parse now today s x) = overdueCalls s"
    with f sub show ?thesis by auto
  next
    assume "overdueCalls (checkTask parse now today s x) = overdueCalls s @ [x]"
    with f have "overdueCalls (foldl (checkTask parse now today) s (x # xs))
        = overdueCalls s @ (x # fired)" by simp
    moreover from sub have "set (x # fired) \<subseteq> set (x # xs)" by auto
    ultimately show ?thesis by blast
  qed
qed

lemma step_calls: "\<exists>more. overdueCalls (step parse s e) = overdueCalls s @ more"
proof (cases e)
  case (Tick now today)
  with foldl_checkTask_calls [of parse now today s "tasks s"] show ?thesis
    by (auto simp: checkOverdueTasks_def)
next
  case (TaskOp op)
  with applyTask_monitor [of op s] show ?thesis by simp
next
  case (HistoryOp op)
  then show ?thesis by simp
qed

lemma run_calls: "\<exists>more. overdueCalls (run parse es s) = overdueCalls s @ more"
proof (induction es arbitrary: s)
  case Nil
  then show ?case by (simp add: run_def)
next
  case (Cons e es)
  from step_calls [of parse s e] obtain m1
    where "overdueCalls (step parse s e) = overdueCalls s @ m1" by blast
  moreover from Cons.IH [of "step parse s e"] obtain m2
    where "overdueCalls (run parse es (step parse s e)) = overdueCalls (step parse s e) @ m2"
    by blast
  ultimately show ?case by (simp add: run_def)
qed

lemma filter_eq_le_id:
  "length (filter (\<lambda>u. u = t) xs) \<le> length (filter (\<lambda>u. task_id u = task_id t) xs)"
  by (induction xs) auto

lemma distinct_id_eq:
  "distinct (map task_id ts) \<Longrightarrow> u \<in> set ts \<Longrightarrow> t \<in> set ts \<Longrightarrow> task_id u = task_id t \<Longrightarrow> u = t"
  by (induction ts) (auto simp: image_iff)

lemma checkTask_balance:
  "notificationsFor j (checkTask parse now today s x) + callsFor j s
     = notificationsFor j s + callsFor j (checkTask parse now today s x)"
  by (simp add: checkTask_def onTaskOverdue_def notifyOverdueTask_def callsFor_def
        notificationsFor_def)

lemma foldl_checkTask_balance:
  "notificationsFor j (foldl (checkTask parse now today) s ts) + callsFor j s
     = notificationsFor j s + callsFor j (foldl (checkTask parse now today) s ts)"
proof (induction ts arbitrary: s)
  case Nil
  then show ?case by simp
next
  case (Cons x xs)
  from Cons.IH [of "checkTask parse now today s x"] checkTask_balance [of j parse now today s x]
  show ?case by simp
qed

lemma applyTask_notifications: "notificationsFor j (applyTask op s) = notificationsFor j s"
  by (cases op)
     (simp_all add: addTask_def completeTask_def deleteTask_def markNotified_def
        clearAllTasks_def notifyTaskCompleted_def notificationsFor_def Let_def
        split: option.splits)

lemma step_balance:
  "notificationsFor j (step parse s e) + callsFor j s
     = notificationsFor j s + callsFor j (step parse s e)"
proof (cases e)
  case (Tick now today)
  with foldl_checkTask_balance [of j parse now today s "tasks s"] show ?thesis
    by (simp add: checkOverdueTasks_def)
next
  case (TaskOp op)
  with applyTask_notifications [of j op s] applyTask_monitor [of op s] show ?thesis
    by (simp add: callsFor_def)
next
  case (HistoryOp op)
  then show ?thesis by (simp add: callsFor_def notificationsFor_def)
qed

lemma run_balance:
  "notificationsFor j (run parse es s) + callsFor j s
     = notificationsFor j s + callsFor j (run parse es s)"
proof (induction es arbitrary: s)
  case Nil
  then show ?case by (simp add: run_def)
next
  case (Cons e es)
  from Cons.IH [of "step parse s e"] step_balance [of j parse s e]
  show ?case by (simp add: run_def)
qed

text \<open>
  C1. Take a task of the list that is not completed and whose deadline has passed at the
  clock reading of a tick, its identifier not yet in the notified set and no callback
  invocation for it so far. After that tick, followed by any further ticks and any other
  actions of the application, the callback has been invoked exactly once for that identifier,
  exactly one overdue notification more than before has been requested for it (one in all
  when none had been), and the identifier is in the notified set. When the identifiers of
  the list are distinct, that one invocation was for the task itself.
\<close>

theorem overdue_notified_once:
  assumes "t \<in> set (tasks s)" and "\<not> completed t" and "isOverdue parse (deadline t) now"
    and "task_id t \<notin> notifiedTasks s" and "callsFor (task_id t) s = 0"
  shows "callsFor (task_id t) (run parse (Tick now today # es) s) = 1
    \<and> notificationsFor (task_id t) (run parse (Tick now today # es) s)
         = notificationsFor (task_id t) s + 1
    \<and> task_id t \<in> notifiedTasks (run parse (Tick now today # es) s)
    \<and> (distinct (map task_id (tasks s)) \<longrightarrow>
         length (filter (\<lambda>u. u = t) (overdueCalls (run parse (Tick now today # es) s))) = 1)"
proof -
  let ?s1 = "checkOverdueTasks parse now today s"
  let ?s2 = "run parse (Tick now today # es) s"
  from assms(1) have "tasks s \<noteq> []" by auto
  then have s1: "?s1 = foldl (checkTask parse now today) s (tasks s)"
    by (simp add: checkOverdueTasks_def)
  from foldl_checkTask_fires [OF assms(1-4), of today] s1 assms(5)
  have in1: "task_id t \<in> notifiedTasks ?s1" and one1: "callsFor (task_id t) ?s1 = 1"
    by simp_all
  have s2: "?s2 = run parse es ?s1" by (simp add: run_def)
  from run_keeps [OF in1, of parse es] one1
  have one: "callsFor (task_id t) ?s2 = 1" and inN: "task_id t \<in> notifiedTasks ?s2"
    by (simp_all add: s2)
  have self: "length (filter (\<lambda>u. u = t) (overdueCalls ?s2)) = 1"
    if d: "distinct (map task_id (tasks s))"
  proof -
    from foldl_checkTask_calls [of parse now today s "tasks s"] s1 obtain fired
      where f: "overdueCalls ?s1 = overdueCalls s @ fired" and sub: "set fired \<subseteq> set (tasks s)"
      by auto
    from one1 assms(5) f have "length (filter (\<lambda>u. task_id u = task_id t) fired) = 1"
      by (simp add: callsFor_def)
    then have "filter (\<lambda>u. task_id u = task_id t) fired \<noteq> []" by auto
    then obtain u where u: "u \<in> set fired" "task_id u = task_id t"
      by (auto simp: filter_empty_conv)
    with sub have "u \<in> set (tasks s)" by auto
    from distinct_id_eq [OF d this assms(1) u(2)] u(1) have "t \<in> set fired" by simp
    moreover from run_calls [of parse es ?s1] obtain more
      where "overdueCalls ?s2 = overdueCalls ?s1 @ more" unfolding s2 by blast
    ultimately have "t \<in> set (overdueCalls ?s2)" using f by simp
    then have "filter (\<lambda>u. u = t) (overdueCalls ?s2) \<noteq> []"
      by (auto simp: filter_empty_conv)
    then have "1 \<le> length (filter (\<lambda>u. u = t) (overdueCalls ?s2))"
      by (cases "filter (\<lambda>u. u = t) (overdueCalls ?s2)") simp_all
    moreover from filter_eq_le_id [of t "overdueCalls ?s2"] one
    have "length (filter (\<lambda>u. u = t) (overdueCalls ?s2)) \<le> 1" by (simp add: callsFor_def)
    ultimately show ?thesis by linarith
  qed
  from run_balance [of "task_id t" parse "Tick now today # es" s] one assms(5)
  have shownOnce: "notificationsFor (task_id t) ?s2 = notificationsFor (task_id t) s + 1"
    by simp
  from one shownOnce inN self show ?thesis by blast
qed

theorem overdue_notified_once_witness:
  "payRent \<in> set (tasks (addTask payRentInput 1771581600000 1771581600000 initial))
   \<and> \<not> completed payRent
   \<and> isOverdue parseSample (deadline payRent) 1771581660000
   \<and> task_id payRent \<notin> notifiedTasks (addTask payRentInput 1771581600000 1771581600000 initial)
   \<and> callsFor (task_id payRent) (addTask payRentInput 1771581600000 1771581600000 initial) = 0
   \<and> distinct (map task_id (tasks (addTask payRentInput 1771581600000 1771581600000 initial)))
   \<and> callsFor (task_id payRent)
        (run parseSample [Tick 1771581660000 ''2026-02-20'', Tick 1771581720000 ''2026-02-20'',
           Tick 1771581780000 ''2026-02-20''] (addTask payRentInput 1771581600000 1771581600000 initial)) = 1
   \<and> notificationsFor (task_id payRent)
        (run parseSample [Tick 1771581660000 ''2026-02-20'', Tick 1771581720000 ''2026-02-20'',
           Tick 1771581780000 ''2026-02-20''] (addTask payRentInput 1771581600000 1771581600000 initial)) = 1
   \<and> shown
        (run parseSample [Tick 1771581660000 ''2026-02-20'', Tick 1771581720000 ''2026-02-20'',
           Tick 1771581780000 ''2026-02-20''] (addTask payRentInput 1771581600000 1771581600000 initial))
       = [Overdue payRent]
   \<and> task_id payRent \<in> notifiedTasks
        (run parseSample [Tick 1771581660000 ''2026-02-20'', Tick 1771581720000 ''2026-02-20'',
           Tick 1771581780000 ''2026-02-20''] (addTask payRentInput 1771581600000 1771581600000 initial))
   \<and> length (filter (\<lambda>u. u = payRent) (overdueCalls
        (run parseSample [Tick 1771581660000 ''2026-02-20'', Tick 1771581720000 ''2026-02-20'',
           Tick 1771581780000 ''2026-02-20''] (addTask payRentInput 1771581600000 1771581600000 initial)))) = 1"
  using overdue_notified_once [of payRent "addTask payRentInput 1771581600000 1771581600000 initial" parseSample
          1771581660000 "''2026-02-20''" "[Tick 1771581720000 ''2026-02-20'', Tick 1771581780000 ''2026-02-20'']"]
  by (simp add: addTask_def payRentInput_def payRent_def initial_def isOverdue_def
        parseSample_def callsFor_def notificationsFor_def run_def checkOverdueTasks_def
        checkTask_def onTaskOverdue_def notifyOverdueTask_def)

section \<open>The first tick after adding an overdue task\<close>

lemma first_tick_day: "getTodayKey 1771581660000 = ''2026-02-20''"
  by code_simp

text \<open>
  C3, evaluated on the code. "Pay rent" is added at 2026-02-20T10:00Z with a deadline at the
  start of 2020 and the monitor ticks once, a minute later, when today's key is
  \<open>2026-02-20\<close>: exactly one overdue notification is requested, the callback runs once and the
  missed count of today's bucket goes from 0 to 1. The task itself is not touched: its
  \<open>notified\<close> flag is still false after the tick, since nothing calls \<open>markNotified\<close>.
\<close>

theorem first_tick_leaves_flag:
  "parseSample ''2020-01-01T00:00'' = Some 1577836800000
   \<and> getTodayKey 1771581660000 = ''2026-02-20''
   \<and> shown (checkOverdueTasks parseSample 1771581660000 ''2026-02-20''
            (addTask payRentInput 1771581600000 1771581600000 initial)) = [Overdue payRent]
   \<and> overdueCalls (checkOverdueTasks parseSample 1771581660000 ''2026-02-20''
            (addTask payRentInput 1771581600000 1771581600000 initial)) = [payRent]
   \<and> missedOf (history (addTask payRentInput 1771581600000 1771581600000 initial)) ''2026-02-20'' = 0
   \<and> missedOf (history (checkOverdueTasks parseSample 1771581660000 ''2026-02-20''
            (addTask payRentInput 1771581600000 1771581600000 initial))) ''2026-02-20'' = 1
   \<and> notifiedTasks (checkOverdueTasks parseSample 1771581660000 ''2026-02-20''
            (addTask payRentInput 1771581600000 1771581600000 initial)) = {1771581600000}
   \<and> map notified (tasks (checkOverdueTasks parseSample 1771581660000 ''2026-02-20''
            (addTask payRentInput 1771581600000 1771581600000 initial))) = [False]
   \<and> map notified (tasks (markNotified 1771581600000 (addTask payRentInput 1771581600000 1771581600000 initial)))
       = [True]"
  using first_tick_day
  by (simp add: checkOverdueTasks_def checkTask_def onTaskOverdue_def notifyOverdueTask_def
        addTask_def payRentInput_def payRent_def initial_def isOverdue_def parseSample_def
        missedOf_def recordMissed_def completedOf_def markNotified_def)

section \<open>Rounding to the nearest double\<close>

lemma rne_err: "\<bar>of_int (rne q) - q\<bar> \<le> 1/2"
  unfolding rne_def Let_def by (auto simp: abs_if; linarith)

lemma rne_le: "q \<le> of_int m \<Longrightarrow> rne q \<le> m"
proof -
  assume le: "q \<le> of_int m"
  then have f: "\<lfloor>q\<rfloor> \<le> m" by (simp add: floor_le_iff) 
  show ?thesis
  proof (cases "q = of_int \<lfloor>q\<rfloor>")
    case True
    then have "rne q = \<lfloor>q\<rfloor>" by (simp add: rne_def Let_def)
    with f show ?thesis by simp
  next
    case False
    with le have "\<lfloor>q\<rfloor> < m"
      by (metis f floor_of_int le_floor_iff order_antisym_conv order_le_less)
    moreover have "rne q \<le> \<lfloor>q\<rfloor> + 1" by (simp add: rne_def Let_def)
    ultimately show ?thesis by linarith
  qed
qed

lemma rne_ge: "of_int m \<le> q \<Longrightarrow> m \<le> rne q"
proof -
  assume "of_int m \<le> q"
  then have "m \<le> \<lfloor>q\<rfloor>" by (simp add: le_floor_iff)
  moreover have "\<lfloor>q\<rfloor> \<le> rne q" by (simp add: rne_def Let_def)
  ultimately show ?thesis by linarith
qed

lemma expo_ge1:
  assumes "1 \<le> q"
  shows "2 powi (expo q) \<le> q" and "q < 2 powi (expo q + 1)"
proof -
  from assms have pos: "0 < \<lfloor>q\<rfloor>" by simp
  then have b1: "1 \<le> bitlen \<lfloor>q\<rfloor>" by (auto simp: bitlen_alt_def)
  from bitlen_bounds [OF pos]
  have lo: "2 ^ nat (bitlen \<lfloor>q\<rfloor> - 1) \<le> \<lfloor>q\<rfloor>" and hi: "\<lfloor>q\<rfloor> + 1 \<le> 2 ^ nat (bitlen \<lfloor>q\<rfloor>)"
    by simp_all
  from lo have "(2::rat) ^ nat (bitlen \<lfloor>q\<rfloor> - 1) \<le> of_int \<lfloor>q\<rfloor>"
    by (metis of_int_le_iff of_int_numeral of_int_power)
  also have "\<dots> \<le> q" by simp
  finally show "2 powi (expo q) \<le> q"
    using assms b1 by (simp add: expo_def power_int_def)
  have "q < of_int (\<lfloor>q\<rfloor> + 1)" by linarith
  also from hi have "of_int (\<lfloor>q\<rfloor> + 1) \<le> (2::rat) ^ nat (bitlen \<lfloor>q\<rfloor>)"
    by (metis of_int_le_iff of_int_numeral of_int_power)
  finally show "q < 2 powi (expo q + 1)"
    using assms b1 by (simp add: expo_def power_int_def)
qed

lemma powi_neg: "0 \<le> m \<Longrightarrow> (2::rat) powi (- m) = inverse (2 ^ nat m)"
  by (simp add: power_int_def power_one_over inverse_eq_divide)

lemma expo_lt1:
  assumes "0 < q" and "q < 1"
  shows "2 powi (expo q) \<le> q" and "q < 2 powi (expo q + 1)"
proof -
  define x where "x = \<lceil>1 / q\<rceil> - 1"
  define b where "b = bitlen x"
  from assms have "1 < 1 / q" by simp
  then have pos: "0 < x" unfolding x_def by linarith
  then have b1: "1 \<le> b" by (auto simp: bitlen_alt_def b_def)
  from bitlen_bounds [OF pos]
  have lo: "2 ^ nat (b - 1) \<le> x" and hi: "x + 1 \<le> 2 ^ nat b"
    by (simp_all add: b_def)
  have e: "expo q = - b" using assms by (simp add: expo_def b_def x_def)
  have iq: "inverse (1 / q) = q" by simp
  have "1 / q \<le> of_int (x + 1)" unfolding x_def by simp
  also from hi have "of_int (x + 1) \<le> (2::rat) ^ nat b"
    by (metis of_int_le_iff of_int_numeral of_int_power)
  finally have "1 / q \<le> 2 ^ nat b" .
  from le_imp_inverse_le [OF this] assms(1) have "inverse (2 ^ nat b) \<le> q"
    unfolding iq by simp
  moreover have "(2::rat) powi (- b) = inverse (2 ^ nat b)"
    using b1 by (intro powi_neg) simp
  ultimately show "2 powi (expo q) \<le> q" unfolding e by simp
  from lo have "(2::rat) ^ nat (b - 1) \<le> of_int x"
    by (metis of_int_le_iff of_int_numeral of_int_power)
  also have "of_int x < 1 / q" unfolding x_def by linarith
  finally have "2 ^ nat (b - 1) < 1 / q" .
  from less_imp_inverse_less [OF this] have "q < inverse (2 ^ nat (b - 1))"
    unfolding iq by simp
  moreover have "(2::rat) powi (- (b - 1)) = inverse (2 ^ nat (b - 1))"
    using b1 by (intro powi_neg) simp
  moreover have "expo q + 1 = - (b - 1)" unfolding e by simp
  ultimately show "q < 2 powi (expo q + 1)" by simp
qed

lemma expo_bounds:
  assumes "0 < q"
  shows "2 powi (expo q) \<le> q" and "q < 2 powi (expo q + 1)"
proof -
  show "2 powi (expo q) \<le> q"
  proof (cases "1 \<le> q")
    case True
    then show ?thesis by (rule expo_ge1)
  next
    case False
    with assms show ?thesis by (intro expo_lt1) simp_all
  qed
  show "q < 2 powi (expo q + 1)"
  proof (cases "1 \<le> q")
    case True
    then show ?thesis by (rule expo_ge1)
  next
    case False
    with assms show ?thesis by (intro expo_lt1) simp_all
  qed
qed

lemma expo_less: "0 < q \<Longrightarrow> q < 2 powi k \<Longrightarrow> expo q < k"
proof (rule ccontr)
  assume "0 < q" "q < 2 powi k" "\<not> expo q < k"
  then have "(2::rat) powi k \<le> 2 powi (expo q)"
    by (intro power_int_increasing) simp_all
  with expo_bounds(1) [OF \<open>0 < q\<close>] \<open>q < 2 powi k\<close> show False by linarith
qed

lemma fl_pos_def: "0 < q \<Longrightarrow> fl q = of_int (rne (q / 2 powi (expo q - 52))) * 2 powi (expo q - 52)"
  by (simp add: fl_def)

lemma scaled_bounds:
  assumes "0 < q"
  shows "2 ^ 52 \<le> q / 2 powi (expo q - 52)" and "q / 2 powi (expo q - 52) < 2 ^ 53"
proof -
  have u: "(2::rat) powi (expo q - 52) = 2 powi (expo q) / 2 ^ 52"
    by (simp add: power_int_diff)
  have p: "(0::rat) < 2 powi (expo q)" by (simp add: zero_less_power_int)
  from expo_bounds [OF assms] have "2 powi (expo q) \<le> q" "q < 2 * 2 powi (expo q)"
    by (simp_all add: power_int_add)
  with p show "2 ^ 52 \<le> q / 2 powi (expo q - 52)" and "q / 2 powi (expo q - 52) < 2 ^ 53"
    unfolding u by (simp_all add: field_simps)
qed

lemma fl_rel_err:
  assumes "0 < q"
  shows "\<bar>fl q - q\<bar> \<le> q / 2 ^ 53"
proof -
  define u :: rat where "u = 2 powi (expo q - 52)"
  define s where "s = q / u"
  have u: "0 < u" by (simp add: u_def zero_less_power_int)
  have q: "q = s * u" using u by (simp add: s_def)
  have s: "2 ^ 52 \<le> s" using scaled_bounds(1) [OF assms] by (simp add: s_def u_def)
  have "fl q = of_int (rne s) * u"
    by (simp add: fl_pos_def [OF assms] s_def u_def)
  then have "fl q - q = (of_int (rne s) - s) * u"
    by (simp add: q algebra_simps)
  then have "\<bar>fl q - q\<bar> = \<bar>of_int (rne s) - s\<bar> * u"
    using u by (simp add: abs_mult)
  also have "\<dots> \<le> (1/2) * u"
    using rne_err [of s] u by (intro mult_right_mono) simp_all
  also have "\<dots> \<le> (s / 2 ^ 53) * u"
  proof (intro mult_right_mono)
    show "1 / 2 \<le> s / 2 ^ 53" using s by simp
    show "0 \<le> u" using u by simp
  qed
  also have "\<dots> = q / 2 ^ 53" by (simp add: q)
  finally show ?thesis .
qed

lemma fl_pos: "0 < q \<Longrightarrow> 0 < fl q"
proof -
  assume q: "0 < q"
  have "(2::rat) ^ 52 = of_int (2 ^ 52)" by simp
  with scaled_bounds(1) [OF q] have "of_int (2 ^ 52) \<le> q / 2 powi (expo q - 52)" by simp
  then have "2 ^ 52 \<le> rne (q / 2 powi (expo q - 52))" by (rule rne_ge)
  moreover have "(0::int) < 2 ^ 52" by simp
  ultimately have "0 < rne (q / 2 powi (expo q - 52))" by linarith
  then show ?thesis by (simp add: fl_pos_def [OF q] zero_less_power_int)
qed

lemma fl_le_repr:
  assumes "0 < q" and "q \<le> of_int m * 2 powi k" and "expo q - 52 \<le> k"
  shows "fl q \<le> of_int m * 2 powi k"
proof -
  define e where "e = expo q - 52"
  define d where "d = nat (k - e)"
  have u: "(0::rat) < 2 powi e" by (simp add: zero_less_power_int)
  have "k = int d + e" using assms(3) by (simp add: d_def e_def)
  then have "(2::rat) powi k = 2 powi (int d) * 2 powi e"
    by (simp add: power_int_add)
  then have k: "(2::rat) powi k = of_int (2 ^ d) * 2 powi e"
    by (simp add: power_int_of_nat)
  from assms(2) have "q / 2 powi e \<le> of_int (m * 2 ^ d)"
    using u by (simp add: k field_simps)
  then have "rne (q / 2 powi e) \<le> m * 2 ^ d" by (rule rne_le)
  then have "(of_int (rne (q / 2 powi e)) :: rat) \<le> of_int (m * 2 ^ d)"
    by (simp only: of_int_le_iff)
  then have "of_int (rne (q / 2 powi e)) * (2::rat) powi e \<le> of_int (m * 2 ^ d) * 2 powi e"
    using u by (intro mult_right_mono) simp_all
  then show ?thesis by (simp add: fl_pos_def [OF assms(1)] k mult.assoc e_def)
qed

lemma Math_round_zero: "Math_round 0 = 0"
  unfolding Math_round_def by (rule floor_unique) simp_all

lemma fl_zero: "fl 0 = 0"
  by (simp add: fl_def)

lemma pct_zero: "Math_round (js_mul (js_div 0 y) 100) = 0"
  by (simp add: js_mul_def js_div_def fl_zero Math_round_zero)

lemma fl_le_one: assumes "0 < q" "q \<le> 1" shows "fl q \<le> 1"
proof -
  have "q < 2 powi 1" using assms by simp
  with assms(1) have "expo q < 1" by (rule expo_less)
  then have "expo q - 52 \<le> 0" by simp
  with fl_le_repr [of q 1 0] assms show ?thesis by simp
qed

lemma fl_le_hundred: assumes "0 < q" "q \<le> 100" shows "fl q \<le> 100"
proof -
  have "q < 2 powi 7" using assms by simp
  with assms(1) have "expo q < 7" by (rule expo_less)
  then have "expo q - 52 \<le> 0" by simp
  with fl_le_repr [of q 100 0] assms show ?thesis by simp
qed

lemma pct_range:
  assumes "0 < c" "c \<le> n"
  shows "0 < js_mul (js_div (of_nat c) (of_nat n)) 100"
    and "js_mul (js_div (of_nat c) (of_nat n)) 100 \<le> 100"
    and "\<bar>js_mul (js_div (of_nat c) (of_nat n)) 100 - 100 * of_nat c / of_nat n\<bar> \<le> 200 / 2 ^ 53"
proof -
  define q :: rat where "q = of_nat c / of_nat n"
  define x where "x = fl q"
  define y where "y = fl (x * 100)"
  have q: "0 < q" "q \<le> 1" using assms by (simp_all add: q_def)
  have x: "0 < x" "x \<le> 1" using fl_pos [OF q(1)] fl_le_one [OF q] by (simp_all add: x_def)
  then have x100: "0 < x * 100" "x * 100 \<le> 100" by simp_all
  have y: "0 < y" "y \<le> 100" using fl_pos [OF x100(1)] fl_le_hundred [OF x100]
    by (simp_all add: y_def)
  define d :: rat where "d = 1 / 2 ^ 53"
  have ex: "\<bar>x - q\<bar> \<le> d"
    using fl_rel_err [OF q(1)] q(2) by (simp add: x_def d_def)
  have ey: "\<bar>y - x * 100\<bar> \<le> 100 * d"
    using fl_rel_err [OF x100(1)] x100(2) by (simp add: y_def d_def)
  have yy: "js_mul (js_div (of_nat c) (of_nat n)) 100 = y"
    by (simp add: js_mul_def js_div_def y_def x_def q_def)
  have t: "100 * of_nat c / of_nat n = 100 * q" by (simp add: q_def)
  show "0 < js_mul (js_div (of_nat c) (of_nat n)) 100"
    and "js_mul (js_div (of_nat c) (of_nat n)) 100 \<le> 100"
    using y by (simp_all add: yy)
  from ex ey have "\<bar>y - 100 * q\<bar> \<le> 200 * d" by linarith
  then show "\<bar>js_mul (js_div (of_nat c) (of_nat n)) 100 - 100 * of_nat c / of_nat n\<bar> \<le> 200 / 2 ^ 53"
    unfolding yy t by (simp add: d_def)
qed

lemma pct_bounds:
  assumes "c \<le> n"
  shows "0 \<le> Math_round (js_mul (js_div (of_nat c) (of_nat n)) 100)"
    and "Math_round (js_mul (js_div (of_nat c) (of_nat n)) 100) \<le> 100"
proof -
  show "0 \<le> Math_round (js_mul (js_div (of_nat c) (of_nat n)) 100)"
  proof (cases "c = 0")
    case True then show ?thesis by (simp add: pct_zero)
  next
    case False
    with pct_range(1) [of c n] assms show ?thesis by (simp add: Math_round_def)
  qed
  show "Math_round (js_mul (js_div (of_nat c) (of_nat n)) 100) \<le> 100"
  proof (cases "c = 0")
    case True then show ?thesis by (simp add: pct_zero)
  next
    case False
    with pct_range(2) [of c n] assms
    have "js_mul (js_div (of_nat c) (of_nat n)) 100 + 1/2 < 101" by simp
    then show ?thesis unfolding Math_round_def by (simp add: floor_le_iff) 
  qed
qed

lemma pct_exact:
  assumes "c \<le> n" and "0 < n" and "n \<le> 2 ^ 44"
    and "frac (100 * of_nat c / of_nat n :: rat) \<noteq> 1 / 2"
  shows "Math_round (js_mul (js_div (of_nat c) (of_nat n)) 100)
           = round (100 * of_nat c / of_nat n :: rat)"
proof (cases "c = 0")
  case True
  then show ?thesis by (simp add: pct_zero)
next
  case False
  define t :: rat where "t = 100 * of_nat c / of_nat n"
  define y where "y = js_mul (js_div (of_nat c) (of_nat n)) 100"
  define k where "k = round t"
  define N :: rat where "N = of_nat n"
  have N: "0 < N" "N \<le> 2 ^ 44" using assms(2,3) unfolding N_def
    by (simp, metis of_nat_le_iff of_nat_numeral of_nat_power)
  have err: "\<bar>y - t\<bar> \<le> 200 / 2 ^ 53"
    using pct_range(3) [of c n] False assms(1) by (simp add: y_def t_def)
  have k1: "of_int k - 1/2 \<le> t" and k2: "t < of_int k + 1/2"
    unfolding k_def round_def by linarith+
  have tN: "t * N = of_int (100 * int c)" using N by (simp add: t_def N_def)
  have ne: "t \<noteq> of_int k - 1/2"
  proof
    assume teq: "t = of_int k - 1/2"
    have "\<lfloor>t\<rfloor> = k - 1" by (rule floor_unique) (simp_all add: teq)
    then have "frac t = 1/2" by (simp add: frac_def teq)
    with assms(4) show False by (simp add: t_def)
  qed
  have gap: "1 / (2 * N) \<le> \<bar>t - (of_int j + 1/2)\<bar>" if "t \<noteq> of_int j + 1/2" for j :: int
  proof -
    define a where "a = 200 * int c - (2 * j + 1) * int n"
    have a: "of_int a = (t - (of_int j + 1/2)) * (2 * N)"
      using N tN by (simp add: a_def algebra_simps N_def)
    with that N have "a \<noteq> 0" by auto
    then have "1 \<le> \<bar>a\<bar>" by simp
    then have "(1::rat) \<le> \<bar>of_int a\<bar>" by (metis of_int_1_le_iff of_int_abs)
    also have "\<dots> = \<bar>t - (of_int j + 1/2)\<bar> * (2 * N)" using N by (simp add: a abs_mult)
    finally show ?thesis using N by (simp add: field_simps)
  qed
  define g where "g = 1 / (2 * N)"
  define dl :: rat where "dl = 200 / 2 ^ 53"
  have small: "dl < g"
  proof -
    have "2 * N \<le> 2 ^ 45" using N by simp
    then have "1 / 2 ^ 45 \<le> 1 / (2 * N)" using N by (intro divide_left_mono) simp_all
    moreover have "dl < 1 / 2 ^ 45" by (simp add: dl_def)
    ultimately show ?thesis unfolding g_def by linarith
  qed
  from gap [of "k - 1"] ne have g1: "g \<le> t - (of_int k - 1/2)"
    using k1 by (simp add: g_def)
  have "t \<noteq> of_int k + 1/2" using k2 by simp
  from gap [OF this] have g2: "g \<le> (of_int k + 1/2) - t"
    using k2 by (simp add: g_def)
  from err have err': "\<bar>y - t\<bar> \<le> dl" by (simp add: dl_def)
  from err' g1 g2 small have "of_int k \<le> y + 1/2" and "y + 1/2 < of_int k + 1"
    by linarith+
  then have "\<lfloor>y + 1/2\<rfloor> = k" by (simp add: floor_unique)
  then show ?thesis by (simp add: Math_round_def y_def k_def t_def)
qed


lemma pct_near:
  assumes "c \<le> n" and "0 < n" and "n \<le> 2 ^ 44"
  shows "\<bar>of_int (Math_round (js_mul (js_div (of_nat c) (of_nat n)) 100))
            - 100 * of_nat c / of_nat n\<bar> \<le> (1/2 :: rat)"
proof (cases "frac (100 * of_nat c / of_nat n :: rat) = 1 / 2")
  case False
  from pct_exact [OF assms False] show ?thesis
    by (simp only: of_int_round_abs_le)
next
  case True
  define t :: rat where "t = 100 * of_nat c / of_nat n"
  define y where "y = js_mul (js_div (of_nat c) (of_nat n)) 100"
  define dl :: rat where "dl = 200 / 2 ^ 53"
  have "c \<noteq> 0"
  proof
    assume "c = 0"
    with True show False by simp
  qed
  then have "\<bar>y - t\<bar> \<le> dl"
    using pct_range(3) [of c n] assms(1) by (simp add: y_def t_def dl_def)
  moreover have "dl < 1 / 2" by (simp add: dl_def)
  moreover define m where "m = \<lfloor>t\<rfloor>"
  moreover have t: "t = of_int m + 1 / 2"
    using True by (simp add: frac_def t_def m_def)
  ultimately have "of_int m \<le> y + 1 / 2" and "y + 1 / 2 < of_int m + 2"
    by linarith+
  then have "m \<le> \<lfloor>y + 1 / 2\<rfloor>" and "\<lfloor>y + 1 / 2\<rfloor> < m + 2"
    by (simp_all add: le_floor_iff floor_less_iff)
  then consider "\<lfloor>y + 1 / 2\<rfloor> = m" | "\<lfloor>y + 1 / 2\<rfloor> = m + 1" by linarith
  then have "\<bar>of_int \<lfloor>y + 1 / 2\<rfloor> - t\<bar> \<le> 1 / 2"
  proof cases
    case 1
    with t show ?thesis by simp
  next
    case 2
    with t show ?thesis by simp
  qed
  then show ?thesis by (simp add: Math_round_def y_def t_def)
qed

lemma pct_5_6: "Math_round (js_mul (js_div 5 6) 100) = 83"
  by code_simp

section \<open>Discipline score\<close>

text \<open>
  C5, as the code has it. The score is 100 for the empty list and always an integer from 0 to
  100. For a list of at most \<open>2^44\<close> tasks (an array holds fewer than \<open>2^32\<close>) it is an
  integer nearest to \<open>100 * completed / total\<close>, and it equals that value rounded, a half
  going up, whenever the value is not exactly halfway between two integers. At a halfway
  value the double product \<open>(completed / total) * 100\<close> may fall on either side.
\<close>

theorem disciplineScore_nearest:
  "(ts = [] \<longrightarrow> disciplineScore ts = 100)
   \<and> 0 \<le> disciplineScore ts \<and> disciplineScore ts \<le> 100
   \<and> (ts \<noteq> [] \<and> length ts \<le> 2 ^ 44 \<longrightarrow>
        \<bar>of_int (disciplineScore ts)
           - 100 * of_nat (length (filter completed ts)) / of_nat (length ts)\<bar> \<le> (1/2 :: rat))
   \<and> (ts \<noteq> [] \<and> length ts \<le> 2 ^ 44
        \<and> frac (100 * of_nat (length (filter completed ts)) / of_nat (length ts) :: rat) \<noteq> 1/2
      \<longrightarrow> disciplineScore ts
            = round (100 * of_nat (length (filter completed ts)) / of_nat (length ts) :: rat))"
proof -
  have le: "length (filter completed ts) \<le> length ts" by simp
  have empty: "disciplineScore ts = 100" if "ts = []"
    using that by (simp add: disciplineScore_def)
  have range: "0 \<le> disciplineScore ts \<and> disciplineScore ts \<le> 100"
    using pct_bounds [OF le] by (simp add: disciplineScore_def)
  have near: "\<bar>of_int (disciplineScore ts)
      - 100 * of_nat (length (filter completed ts)) / of_nat (length ts)\<bar> \<le> (1/2 :: rat)"
    if "ts \<noteq> []" "length ts \<le> 2 ^ 44"
    using pct_near [OF le _ that(2)] that(1) by (simp add: disciplineScore_def)
  have exact: "disciplineScore ts
      = round (100 * of_nat (length (filter completed ts)) / of_nat (length ts) :: rat)"
    if "ts \<noteq> []" "length ts \<le> 2 ^ 44"
      "frac (100 * of_nat (length (filter completed ts)) / of_nat (length ts) :: rat) \<noteq> 1/2"
    using pct_exact [OF le _ that(2,3)] that(1) by (simp add: disciplineScore_def)
  from empty range near exact show ?thesis by blast
qed

lemma third_not_half: "frac (100 * 1 / 3 :: rat) \<noteq> 1 / 2"
  by code_simp

lemma third_rounded: "round (100 * 1 / 3 :: rat) = 33"
  by code_simp

theorem disciplineScore_nearest_witness:
  "[payRent\<lparr>completed := True\<rparr>, payRent, payRent] \<noteq> []
   \<and> length [payRent\<lparr>completed := True\<rparr>, payRent, payRent] \<le> 2 ^ 44
   \<and> frac (100 * of_nat (length (filter completed
          [payRent\<lparr>completed := True\<rparr>, payRent, payRent])) / of_nat 3 :: rat) \<noteq> 1/2
   \<and> disciplineScore [payRent\<lparr>completed := True\<rparr>, payRent, payRent] = 33
   \<and> disciplineScore [] = 100"
  using disciplineScore_nearest [of "[payRent\<lparr>completed := True\<rparr>, payRent, payRent]"]
        disciplineScore_nearest [of "[]"] third_not_half third_rounded
  by (simp add: payRent_def)

text \<open>
  The claim as stated fails for 23 completed tasks out of 40: \<open>100 * 23 / 40\<close> is 57.5, which
  rounds to 58, but the double \<open>23 / 40\<close> lies below 0.575, its product with 100 is
  57.49999999999999 and the score is 57. For 1 out of 8 the value 12.5 goes up to 13, so
  the code follows no fixed rule at a halfway value.
\<close>

lemma pct_23_40: "Math_round (js_mul (js_div 23 40) 100) = 57"
  by code_simp

lemma pct_1_8: "Math_round (js_mul (js_div 1 8) 100) = 13"
  by code_simp

lemma round_23_40: "round (100 * 23 / 40 :: rat) = 58"
  by code_simp

theorem disciplineScore_tie_counterexample:
  "length (replicate 23 (payRent\<lparr>completed := True\<rparr>) @ replicate 17 payRent) = 40
   \<and> length (filter completed
        (replicate 23 (payRent\<lparr>completed := True\<rparr>) @ replicate 17 payRent)) = 23
   \<and> round (100 * 23 / 40 :: rat) = 58
   \<and> disciplineScore (replicate 23 (payRent\<lparr>completed := True\<rparr>) @ replicate 17 payRent) = 57
   \<and> disciplineScore (payRent\<lparr>completed := True\<rparr> # replicate 7 payRent) = 13"
proof -
  have a: "length (replicate 23 (payRent\<lparr>completed := True\<rparr>) @ replicate 17 payRent) = 40"
    by simp
  have b: "length (filter completed
        (replicate 23 (payRent\<lparr>completed := True\<rparr>) @ replicate 17 payRent)) = 23"
    by (simp add: payRent_def)
  have c: "disciplineScore (replicate 23 (payRent\<lparr>completed := True\<rparr>) @ replicate 17 payRent)
      = 57"
    by (simp add: disciplineScore_def payRent_def pct_23_40)
  have d: "disciplineScore (payRent\<lparr>completed := True\<rparr> # replicate 7 payRent) = 13"
    by (simp add: disciplineScore_def payRent_def pct_1_8)
  show ?thesis by (intro conjI a b round_23_40 c d)
qed

section \<open>Overall completion rate\<close>

lemma foldl_totals:
  "foldl (\<lambda>acc day. \<lparr>completedCount = completedCount acc + completedCount day,
                      missedCount = missedCount acc + missedCount day\<rparr>) a es
     = \<lparr>completedCount = completedCount a + sum_list (map completedCount es),
        missedCount = missedCount a + sum_list (map missedCount es)\<rparr>"
  by (induction es arbitrary: a) (simp_all add: add.assoc)

lemma getOverallCompletionRate_sums:
  "getOverallCompletionRate h =
     (if 0 < sum_list (map (completedCount \<circ> snd) h) + sum_list (map (missedCount \<circ> snd) h)
      then Math_round (js_mul (js_div (of_nat (sum_list (map (completedCount \<circ> snd) h)))
             (of_nat (sum_list (map (completedCount \<circ> snd) h)
                + sum_list (map (missedCount \<circ> snd) h)))) 100)
      else 100)"
proof (cases "h = []")
  case True
  then show ?thesis by (simp add: getOverallCompletionRate_def)
next
  case False
  have totals: "foldl (\<lambda>acc day. \<lparr>completedCount = completedCount acc + completedCount day,
                      missedCount = missedCount acc + missedCount day\<rparr>)
                 \<lparr>completedCount = 0, missedCount = 0\<rparr> (map snd h)
      = \<lparr>completedCount = sum_list (map (completedCount \<circ> snd) h),
         missedCount = sum_list (map (missedCount \<circ> snd) h)\<rparr>"
    by (simp add: foldl_totals)
  from False show ?thesis
    unfolding getOverallCompletionRate_def Let_def totals
    by (simp del: sum_list_eq_0_iff add_is_0 add_gr_0 of_nat_add)
qed

text \<open>
  C8, as the code has it. With \<open>C\<close> and \<open>M\<close> the sums of the completed and missed counts over
  all buckets, the rate is 100 when \<open>C + M = 0\<close> (the empty history included) and always an
  integer from 0 to 100. For \<open>0 < C + M \<le> 2^44\<close> it is an integer nearest to
  \<open>100 * C / (C + M)\<close>, equal to that value rounded, a half going up, whenever the value is
  not exactly halfway between two integers. For the history
  \<open>{d1: {completed: 3, missed: 1}, d2: {completed: 2, missed: 0}}\<close> it is 83.
\<close>

theorem getOverallCompletionRate_nearest:
  "(sum_list (map (completedCount \<circ> snd) h) + sum_list (map (missedCount \<circ> snd) h) = 0
      \<longrightarrow> getOverallCompletionRate h = 100)
   \<and> getOverallCompletionRate [] = 100
   \<and> 0 \<le> getOverallCompletionRate h \<and> getOverallCompletionRate h \<le> 100
   \<and> (0 < sum_list (map (completedCount \<circ> snd) h) + sum_list (map (missedCount \<circ> snd) h)
      \<and> sum_list (map (completedCount \<circ> snd) h) + sum_list (map (missedCount \<circ> snd) h)
          \<le> 2 ^ 44
      \<longrightarrow> \<bar>of_int (getOverallCompletionRate h)
            - 100 * of_nat (sum_list (map (completedCount \<circ> snd) h))
              / of_nat (sum_list (map (completedCount \<circ> snd) h)
                  + sum_list (map (missedCount \<circ> snd) h))\<bar> \<le> (1/2 :: rat))
   \<and> (0 < sum_list (map (completedCount \<circ> snd) h) + sum_list (map (missedCount \<circ> snd) h)
      \<and> sum_list (map (completedCount \<circ> snd) h) + sum_list (map (missedCount \<circ> snd) h)
          \<le> 2 ^ 44
      \<and> frac (100 * of_nat (sum_list (map (completedCount \<circ> snd) h))
              / of_nat (sum_list (map (completedCount \<circ> snd) h)
                  + sum_list (map (missedCount \<circ> snd) h)) :: rat) \<noteq> 1/2
      \<longrightarrow> getOverallCompletionRate h
            = round (100 * of_nat (sum_list (map (completedCount \<circ> snd) h))
              / of_nat (sum_list (map (completedCount \<circ> snd) h)
                  + sum_list (map (missedCount \<circ> snd) h)) :: rat))
   \<and> getOverallCompletionRate
         [(''d1'', \<lparr>completedCount = 3, missedCount = 1\<rparr>),
          (''d2'', \<lparr>completedCount = 2, missedCount = 0\<rparr>)] = 83"
proof -
  define C where "C = sum_list (map (completedCount \<circ> snd) h)"
  define T where "T = C + sum_list (map (missedCount \<circ> snd) h)"
  have le: "C \<le> T" by (simp add: T_def)
  have rate: "getOverallCompletionRate h
      = (if 0 < T then Math_round (js_mul (js_div (of_nat C) (of_nat T)) 100) else 100)"
    unfolding T_def C_def by (rule getOverallCompletionRate_sums)
  have zero: "T = 0 \<longrightarrow> getOverallCompletionRate h = 100"
    by (simp add: rate)
  have empty: "getOverallCompletionRate [] = 100"
    by (simp add: getOverallCompletionRate_def)
  have lo: "0 \<le> getOverallCompletionRate h" and hi: "getOverallCompletionRate h \<le> 100"
    using pct_bounds [OF le] by (simp_all add: rate)
  have near: "0 < T \<and> T \<le> 2 ^ 44 \<longrightarrow>
      \<bar>of_int (getOverallCompletionRate h) - 100 * of_nat C / of_nat T\<bar> \<le> (1/2 :: rat)"
    using pct_near [OF le] by (simp add: rate)
  have exact: "0 < T \<and> T \<le> 2 ^ 44 \<and> frac (100 * of_nat C / of_nat T :: rat) \<noteq> 1/2 \<longrightarrow>
      getOverallCompletionRate h = round (100 * of_nat C / of_nat T :: rat)"
    using pct_exact [OF le] by (simp add: rate)
  have example: "getOverallCompletionRate
         [(''d1'', \<lparr>completedCount = 3, missedCount = 1\<rparr>),
          (''d2'', \<lparr>completedCount = 2, missedCount = 0\<rparr>)] = 83"
    by (simp add: getOverallCompletionRate_sums pct_5_6)
  note facts = zero empty lo hi near exact example
  show ?thesis by (intro conjI facts [unfolded T_def C_def])
qed

lemma five_sixths_not_half: "frac (100 * 5 / 6 :: rat) \<noteq> 1 / 2"
  by code_simp

lemma five_sixths_rounded: "round (100 * 5 / 6 :: rat) = 83"
  by code_simp

theorem getOverallCompletionRate_nearest_witness:
  "0 < sum_list (map (completedCount \<circ> snd)
          [(''d1'', \<lparr>completedCount = 3, missedCount = 1\<rparr>),
           (''d2'', \<lparr>completedCount = 2, missedCount = 0\<rparr>)])
       + sum_list (map (missedCount \<circ> snd)
          [(''d1'', \<lparr>completedCount = 3, missedCount = 1\<rparr>),
           (''d2'', \<lparr>completedCount = 2, missedCount = 0\<rparr>)])
   \<and> frac (100 * 5 / 6 :: rat) \<noteq> 1 / 2
   \<and> round (100 * 5 / 6 :: rat) = 83
   \<and> getOverallCompletionRate
         [(''d1'', \<lparr>completedCount = 3, missedCount = 1\<rparr>),
          (''d2'', \<lparr>completedCount = 2, missedCount = 0\<rparr>)] = 83
   \<and> sum_list (map (completedCount \<circ> snd)
          [(''d1'', \<lparr>completedCount = 0, missedCount = 0\<rparr>)])
       + sum_list (map (missedCount \<circ> snd)
          [(''d1'', \<lparr>completedCount = 0, missedCount = 0\<rparr>)]) = 0
   \<and> getOverallCompletionRate [(''d1'', \<lparr>completedCount = 0, missedCount = 0\<rparr>)] = 100"
  using getOverallCompletionRate_nearest
          [of "[(''d1'', \<lparr>completedCount = 3, missedCount = 1\<rparr>),
                (''d2'', \<lparr>completedCount = 2, missedCount = 0\<rparr>)]"]
        getOverallCompletionRate_nearest
          [of "[(''d1'', \<lparr>completedCount = 0, missedCount = 0\<rparr>)]"]
        five_sixths_not_half five_sixths_rounded
  by simp

text \<open>
  The general formula of the claim fails for a bucket with 23 completed and 17 missed:
  the exact value 57.5 rounds to 58 and the code returns 57.
\<close>

theorem getOverallCompletionRate_tie_counterexample:
  "sum_list (map (completedCount \<circ> snd) [(''d1'', \<lparr>completedCount = 23, missedCount = 17\<rparr>)]) = 23
   \<and> sum_list (map (completedCount \<circ> snd) [(''d1'', \<lparr>completedCount = 23, missedCount = 17\<rparr>)])
       + sum_list (map (missedCount \<circ> snd) [(''d1'', \<lparr>completedCount = 23, missedCount = 17\<rparr>)])
       = 40
   \<and> round (100 * 23 / 40 :: rat) = 58
   \<and> getOverallCompletionRate [(''d1'', \<lparr>completedCount = 23, missedCount = 17\<rparr>)] = 57"
proof -
  have a: "sum_list (map (completedCount \<circ> snd)
      [(''d1'', \<lparr>completedCount = 23, missedCount = 17\<rparr>)]) = 23"
    by simp
  have b: "sum_list (map (completedCount \<circ> snd) [(''d1'', \<lparr>completedCount = 23, missedCount = 17\<rparr>)])
       + sum_list (map (missedCount \<circ> snd) [(''d1'', \<lparr>completedCount = 23, missedCount = 17\<rparr>)])
       = 40"
    by simp
  have c: "getOverallCompletionRate [(''d1'', \<lparr>completedCount = 23, missedCount = 17\<rparr>)] = 57"
    by (simp add: getOverallCompletionRate_sums pct_23_40)
  show ?thesis by (intro conjI a b round_23_40 c)
qed

end
